theory Spec2Isabelle
  imports Complex_Main "HOL-Library.Char_ord" "HOL-Library.List_Lexorder" "HOL-Library.Multiset"
begin

section \<open>Data frames\<close>

text \<open>
  The pipeline of \<^verbatim>\<open>defs/assets.py\<close> passes pandas data frames from stage to stage.
  A cell is a null (\<^verbatim>\<open>None\<close>, \<^verbatim>\<open>NaN\<close>, \<^verbatim>\<open>NaT\<close>: whatever \<^verbatim>\<open>isna\<close> accepts), a string or a
  timestamp (nanoseconds since the epoch). A row gives a cell to every column name and
  is null outside the columns of its frame (\<open>wf\<close> below); a frame is its column names and
  its rows, in order. The row index of pandas is not modelled: the stages never read it.
\<close>

datatype cell = Null | Str string | Ts int

type_synonym row = "string \<Rightarrow> cell"

record dataframe =
  columns :: "string list"
  rows :: "row list"

datatype exn =
    KeyError string
  | TypeError string
  | ValueError string
  | OtherError string

fun message :: "exn \<Rightarrow> string" where
  "message (KeyError m) = m"
| "message (TypeError m) = m"
| "message (ValueError m) = m"
| "message (OtherError m) = m"

definition wf :: "dataframe \<Rightarrow> bool" where
  "wf df \<longleftrightarrow> (\<forall>r \<in> set (rows df). \<forall>c. c \<notin> set (columns df) \<longrightarrow> r c = Null)"

text \<open>\<^verbatim>\<open>pd.DataFrame()\<close>, \<^verbatim>\<open>df.empty\<close> (true when either axis has length 0) and \<^verbatim>\<open>len(df)\<close>.\<close>

definition DataFrame :: dataframe where
  "DataFrame = \<lparr>columns = [], rows = []\<rparr>"

definition empty :: "dataframe \<Rightarrow> bool" where
  "empty df \<longleftrightarrow> columns df = [] \<or> rows df = []"

definition len :: "dataframe \<Rightarrow> nat" where
  "len df = length (rows df)"

definition notna :: "cell \<Rightarrow> bool" where
  "notna c \<longleftrightarrow> c \<noteq> Null"

text \<open>
  \<^verbatim>\<open>df.drop_duplicates(subset=[c], keep="first")\<close>: rows are read in order and a row is kept
  when its key has not been seen. pandas hashes the key column, and there all nulls are
  one key. An empty frame is returned as it is; a missing key column raises KeyError.
\<close>

fun keep_first :: "('a \<Rightarrow> 'k) \<Rightarrow> 'k set \<Rightarrow> 'a list \<Rightarrow> 'a list" where
  "keep_first k seen [] = []"
| "keep_first k seen (r # rs) =
     (if k r \<in> seen then keep_first k seen rs else r # keep_first k (insert (k r) seen) rs)"

definition drop_duplicates :: "string \<Rightarrow> dataframe \<Rightarrow> exn + dataframe" where
  "drop_duplicates c df =
     (if empty df then Inr df
      else if c \<notin> set (columns df) then Inl (KeyError c)
      else Inr (df\<lparr>rows := keep_first (\<lambda>r. r c) {} (rows df)\<rparr>))"

text \<open>
  \<^verbatim>\<open>pd.concat([a, b], ignore_index=True)\<close>: the columns of \<open>a\<close>, then those of \<open>b\<close> that
  \<open>a\<close> lacks; the rows of \<open>a\<close>, then those of \<open>b\<close>, each null in the columns its own frame
  lacks.
\<close>

definition restrict :: "string list \<Rightarrow> row \<Rightarrow> row" where
  "restrict cs r = (\<lambda>c. if c \<in> set cs then r c else Null)"

definition concat_frames :: "dataframe \<Rightarrow> dataframe \<Rightarrow> dataframe" where
  "concat_frames a b =
     \<lparr>columns = columns a @ filter (\<lambda>c. c \<notin> set (columns a)) (columns b),
      rows = map (restrict (columns a)) (rows a) @ map (restrict (columns b)) (rows b)\<rparr>"

text \<open>
  Ordering of cells, as Python compares them: timestamps by time, strings
  lexicographically, and a string against a timestamp raises TypeError. \<open>comparable\<close>
  tells whether the non-null cells of a column can be ordered at all.
\<close>

fun is_str :: "cell \<Rightarrow> bool" where
  "is_str (Str s) = True"
| "is_str c = False"

fun is_ts :: "cell \<Rightarrow> bool" where
  "is_ts (Ts t) = True"
| "is_ts c = False"

definition comparable :: "cell list \<Rightarrow> bool" where
  "comparable cs \<longleftrightarrow> \<not> (list_ex is_str cs \<and> list_ex is_ts cs)"

fun cell_less :: "cell \<Rightarrow> cell \<Rightarrow> bool" where
  "cell_less (Ts a) (Ts b) = (a < b)"
| "cell_less (Str a) (Str b) = (a < b)"
| "cell_less a b = False"

section \<open>Dates\<close>

text \<open>
  A \<^verbatim>\<open>datetime\<close> is a day of the proleptic Gregorian calendar, counted from 1970-01-01,
  and the microseconds since its midnight. Python keeps dates within the years 1 to 9999
  and raises beyond them; \<open>day_in_range\<close> is that bound.
\<close>

record datetime =
  day :: int
  usec :: int

definition day_in_range :: "int \<Rightarrow> bool" where
  "day_in_range d \<longleftrightarrow> - 719162 \<le> d \<and> d \<le> 2932896"

text \<open>Year, month and day of a day number.\<close>

definition civil_from_days :: "int \<Rightarrow> int \<times> int \<times> int" where
  "civil_from_days d =
     (let z = d + 719468;
          era = z div 146097;
          doe = z - era * 146097;
          yoe = (doe - doe div 1460 + doe div 36524 - doe div 146096) div 365;
          doy = doe - (365 * yoe + yoe div 4 - yoe div 100);
          mp = (5 * doy + 2) div 153;
          dd = doy - (153 * mp + 2) div 5 + 1;
          mm = (if mp < 10 then mp + 3 else mp - 9);
          yy = yoe + era * 400 + (if mm \<le> 2 then 1 else 0)
      in (yy, mm, dd))"

text \<open>\<^verbatim>\<open>strftime("%Y-%m-%d")\<close>: four digits of the year, two of the month, two of the day.\<close>

definition digit :: "int \<Rightarrow> char" where
  "digit n = ''0123456789'' ! nat (n mod 10)"

definition strftime_Ymd :: "datetime \<Rightarrow> string" where
  "strftime_Ymd dt =
     (case civil_from_days (day dt) of
        (yy, mm, dd) \<Rightarrow>
          [digit (yy div 1000), digit (yy div 100), digit (yy div 10), digit yy] @ ''-'' @
          [digit (mm div 10), digit mm] @ ''-'' @
          [digit (dd div 10), digit dd])"

text \<open>
  The local wall clock at a POSIX time: the time is rounded to microseconds (half to
  even) and shifted by the offset the local zone has at that second.
  \<^verbatim>\<open>datetime.fromtimestamp\<close> raises when the date leaves the range of \<^verbatim>\<open>datetime\<close>.
\<close>

definition round_half_even :: "real \<Rightarrow> int" where
  "round_half_even x =
     (let f = \<lfloor>x\<rfloor>; r = x - of_int f
      in if r < 1 / 2 then f else if 1 / 2 < r then f + 1 else if even f then f else f + 1)"

definition local_datetime :: "(int \<Rightarrow> int) \<Rightarrow> real \<Rightarrow> datetime" where
  "local_datetime utcoffset t =
     (let us = round_half_even (t * 1000000);
          secs = us div 1000000;
          local = secs + utcoffset secs
      in \<lparr>day = local div 86400, usec = (local mod 86400) * 1000000 + us mod 1000000\<rparr>)"

definition fromtimestamp :: "(int \<Rightarrow> int) \<Rightarrow> real \<Rightarrow> exn + datetime" where
  "fromtimestamp utcoffset t =
     (if day_in_range (day (local_datetime utcoffset t))
      then Inr (local_datetime utcoffset t)
      else Inl (ValueError ''year is out of range''))"

text \<open>\<^verbatim>\<open>dt - timedelta(days=n)\<close>.\<close>

definition minus_days :: "datetime \<Rightarrow> int \<Rightarrow> datetime" where
  "minus_days dt n = dt\<lparr>day := day dt - n\<rparr>"

text \<open>
  A string of the shape \<^verbatim>\<open>YYYY-MM-DD\<close>.
\<close>

definition is_digit :: "char \<Rightarrow> bool" where
  "is_digit ch \<longleftrightarrow> ch \<in> set ''0123456789''"

definition is_Ymd :: "string \<Rightarrow> bool" where
  "is_Ymd s \<longleftrightarrow>
     (case s of
        [y1, y2, y3, y4, s1, m1, m2, s2, d1, d2] \<Rightarrow>
          list_all is_digit [y1, y2, y3, y4, m1, m2, d1, d2] \<and> s1 = CHR ''-'' \<and> s2 = CHR ''-''
      | _ \<Rightarrow> False)"

section \<open>Execution context\<close>

text \<open>
  What a stage reaches through its \<^verbatim>\<open>context\<close> argument and \<^verbatim>\<open>duckdb\<close>: the log, the
  metadata attached to the output, and the database of persisted tables. The stages
  only ever read the database; every statement they execute is recorded in \<open>queries\<close>.
  \<open>ImportFails\<close> is a failing \<^verbatim>\<open>import duckdb\<close>, \<open>ConnectFails\<close> a failing
  \<^verbatim>\<open>duckdb.connect\<close> or \<^verbatim>\<open>execute\<close>.
\<close>

datatype log_entry = Info string | Error string

datatype meta = MInt nat | MText string | MRange cell cell | MTimestamp real | MDatetime datetime

datatype duckdb =
    ImportFails exn
  | ConnectFails exn
  | Database "string \<Rightarrow> dataframe option"

record exec_context =
  db :: duckdb
  log :: "log_entry list"
  queries :: "string list"
  output_metadata :: "(string \<times> meta) list"

definition log_info :: "string \<Rightarrow> exec_context \<Rightarrow> exec_context" where
  "log_info m ctx = ctx\<lparr>log := log ctx @ [Info m]\<rparr>"

definition log_error :: "string \<Rightarrow> exec_context \<Rightarrow> exec_context" where
  "log_error m ctx = ctx\<lparr>log := log ctx @ [Error m]\<rparr>"

definition add_output_metadata :: "(string \<times> meta) list \<Rightarrow> exec_context \<Rightarrow> exec_context" where
  "add_output_metadata kvs ctx = ctx\<lparr>output_metadata := output_metadata ctx @ kvs\<rparr>"

text \<open>Decimal rendering of a count inside an f-string.\<close>

fun str_nat :: "nat \<Rightarrow> string" where
  "str_nat n =
     (if n < 10 then [char_of (48 + n)]
      else str_nat (n div 10) @ [char_of (48 + n mod 10)])"

declare str_nat.simps [simp del]

text \<open>
  The block both accumulating stages open with (lines 161-190 and 259-288): look the
  stage's table up in schema \<^verbatim>\<open>raw\<close> and read it whole. Any failure leaves
  \<^verbatim>\<open>pd.DataFrame()\<close> and a log line.
\<close>

definition table_query :: "string \<Rightarrow> string" where
  "table_query t =
     ''SELECT table_name FROM information_schema.tables WHERE table_schema = '' @
     [CHR 39] @ ''raw'' @ [CHR 39] @ '' AND table_name = '' @ [CHR 39] @ t @ [CHR 39]"

definition select_query :: "string \<Rightarrow> string" where
  "select_query t = ''SELECT * FROM raw.'' @ t"

definition load_existing :: "string \<Rightarrow> string \<Rightarrow> exec_context \<Rightarrow> dataframe \<times> exec_context" where
  "load_existing t what ctx =
     (case db ctx of
        ImportFails e \<Rightarrow>
          (DataFrame, log_info (''Could not load existing '' @ what @ '' data: '' @ message e) ctx)
      | ConnectFails e \<Rightarrow>
          (DataFrame, log_info (''No existing '' @ what @ '' data found: '' @ message e) ctx)
      | Database tables \<Rightarrow>
          (let ctx1 = ctx\<lparr>queries := queries ctx @ [table_query t]\<rparr> in
           case tables t of
             None \<Rightarrow> (DataFrame, ctx1)
           | Some existing \<Rightarrow>
               (existing,
                log_info (''Loaded '' @ str_nat (len existing) @ '' existing '' @ what @ '' articles'')
                  (ctx1\<lparr>queries := queries ctx1 @ [select_query t]\<rparr>))))"

section \<open>The accumulating deduplicator\<close>

text \<open>
  \<^verbatim>\<open>processed_news\<close> (lines 146-230). The date range of the metadata is the minimum and
  the maximum of the \<^verbatim>\<open>publishedAt\<close> column, nulls skipped; computing it compares the
  cells, and raises on a column that mixes strings and timestamps.
\<close>

definition column :: "string \<Rightarrow> dataframe \<Rightarrow> cell list" where
  "column c df = map (\<lambda>r. r c) (rows df)"

fun cell_min :: "cell \<Rightarrow> cell \<Rightarrow> cell" where
  "cell_min Null b = b"
| "cell_min a Null = a"
| "cell_min a b = (if cell_less b a then b else a)"

fun cell_max :: "cell \<Rightarrow> cell \<Rightarrow> cell" where
  "cell_max Null b = b"
| "cell_max a Null = a"
| "cell_max a b = (if cell_less a b then b else a)"

definition date_range :: "dataframe \<Rightarrow> exn + meta" where
  "date_range df =
     (if \<not> empty df \<and> ''publishedAt'' \<in> set (columns df) then
        (if comparable (column ''publishedAt'' df)
         then Inr (MRange (foldr cell_min (column ''publishedAt'' df) Null)
                          (foldr cell_max (column ''publishedAt'' df) Null))
         else Inl (TypeError ''not supported between instances of str and Timestamp''))
      else Inr (MText ''N/A''))"

definition processed_news :: "exec_context \<Rightarrow> dataframe \<Rightarrow> (exn + dataframe) \<times> exec_context" where
  "processed_news ctx ai_marketing_news_raw =
     (let ctx1 = log_info (''Processing '' @ str_nat (len ai_marketing_news_raw) @ '' raw articles'') ctx in
      if empty ai_marketing_news_raw then
        (Inr ai_marketing_news_raw, log_info ''No raw articles to process'' ctx1)
      else
        let (existing_processed, ctx2) = load_existing ''processed_news'' ''processed'' ctx1;
            initial_count = len ai_marketing_news_raw
        in case drop_duplicates ''url'' ai_marketing_news_raw of
             Inl e \<Rightarrow> (Inl e, ctx2)
           | Inr processed \<Rightarrow>
               (let duplicates_in_batch = initial_count - len processed;
                    ctx3 = log_info (''Removed '' @ str_nat duplicates_in_batch @
                                     '' duplicates within current batch'') ctx2
                in case (if \<not> empty existing_processed
                         then drop_duplicates ''url'' (concat_frames existing_processed processed)
                         else Inr processed) of
                     Inl e \<Rightarrow> (Inl e, ctx3)
                   | Inr final_processed \<Rightarrow>
                       (let ctx4 =
                              (if \<not> empty existing_processed
                               then log_info (''Combined '' @ str_nat (len existing_processed) @
                                      '' existing + '' @ str_nat (len processed) @ '' new = '' @
                                      str_nat (len final_processed) @ '' total (removed '' @
                                      str_nat (len existing_processed + len processed - len final_processed) @
                                      '' duplicates)'') ctx3
                               else log_info (''First run: storing '' @ str_nat (len processed) @
                                      '' processed articles'') ctx3)
                        in case date_range final_processed of
                             Inl e \<Rightarrow> (Inl e, ctx4)
                           | Inr dr \<Rightarrow>
                               (Inr final_processed,
                                add_output_metadata
                                  [(''total_articles'', MInt (len final_processed)),
                                   (''new_articles_processed'', MInt (len processed)),
                                   (''duplicates_removed'', MInt duplicates_in_batch),
                                   (''existing_articles'', MInt (len existing_processed)),
                                   (''date_range'', dr)] ctx4))))"


definition existing_processed :: "exec_context \<Rightarrow> dataframe" where
  "existing_processed ctx = fst (load_existing ''processed_news'' ''processed'' ctx)"

section \<open>The accumulating filter\<close>

text \<open>
  \<^verbatim>\<open>df[c]\<close> raises KeyError when the frame has no column \<open>c\<close>.
\<close>

definition getitem :: "string \<Rightarrow> dataframe \<Rightarrow> exn + cell list" where
  "getitem c df = (if c \<in> set (columns df) then Inr (column c df) else Inl (KeyError c))"

text \<open>
  \<^verbatim>\<open>Series.str.strip()\<close> strips Python's whitespace from both ends of a string cell and
  gives a null for any other cell, so that \<^verbatim>\<open>.ne("")\<close> holds of it. Characters are read as
  code points below 256.
\<close>

definition is_space :: "char \<Rightarrow> bool" where
  "is_space ch \<longleftrightarrow>
     ch \<in> set [CHR 0x20, CHR 0x09, CHR 0x0A, CHR 0x0B, CHR 0x0C, CHR 0x0D,
               CHR 0x1C, CHR 0x1D, CHR 0x1E, CHR 0x1F, CHR 0x85, CHR 0xA0]"

definition strip :: "string \<Rightarrow> string" where
  "strip s = rev (dropWhile is_space (rev (dropWhile is_space s)))"

fun str_strip :: "cell \<Rightarrow> cell" where
  "str_strip (Str s) = Str (strip s)"
| "str_strip c = Null"

text \<open>
  \<^verbatim>\<open>pd.to_datetime(col, errors="coerce")\<close>: a timestamp stays, a null stays null, a string
  is parsed and becomes a null when it does not parse. The parser belongs to pandas; it
  is a parameter here, and it sees the whole column because pandas settles the format on
  the column, not on the cell.
\<close>

type_synonym parser = "cell list \<Rightarrow> string \<Rightarrow> int option"

fun to_datetime_cell :: "parser \<Rightarrow> cell list \<Rightarrow> cell \<Rightarrow> cell" where
  "to_datetime_cell P col Null = Null"
| "to_datetime_cell P col (Ts t) = Ts t"
| "to_datetime_cell P col (Str s) = (case P col s of None \<Rightarrow> Null | Some t \<Rightarrow> Ts t)"

definition to_datetime_coerce :: "parser \<Rightarrow> string \<Rightarrow> dataframe \<Rightarrow> dataframe" where
  "to_datetime_coerce P c df =
     df\<lparr>rows := map (\<lambda>r. r(c := to_datetime_cell P (column c df) (r c))) (rows df)\<rparr>"

text \<open>
  \<^verbatim>\<open>df.sort_values(c, ascending=False)\<close>: the rows with a key, newest first, then the
  rows whose key is null, in their order. Rows with equal keys keep their order here
  (pandas does not promise it). Keys that mix strings and timestamps cannot be compared.
\<close>

fun insert_desc :: "('a \<Rightarrow> cell) \<Rightarrow> 'a \<Rightarrow> 'a list \<Rightarrow> 'a list" where
  "insert_desc k x [] = [x]"
| "insert_desc k x (y # ys) =
     (if cell_less (k x) (k y) then y # insert_desc k x ys else x # y # ys)"

definition sort_desc :: "('a \<Rightarrow> cell) \<Rightarrow> 'a list \<Rightarrow> 'a list" where
  "sort_desc k xs = foldr (insert_desc k) xs []"

definition sort_values :: "string \<Rightarrow> dataframe \<Rightarrow> exn + dataframe" where
  "sort_values c df =
     (if c \<notin> set (columns df) then Inl (KeyError c)
      else if \<not> comparable (column c df)
      then Inl (TypeError ''not supported between instances of str and Timestamp'')
      else Inr (df\<lparr>rows := sort_desc (\<lambda>r. r c) (filter (\<lambda>r. notna (r c)) (rows df)) @
                            filter (\<lambda>r. \<not> notna (r c)) (rows df)\<rparr>))"

text \<open>
  The validity mask of lines 291-303, as a predicate on rows. With no content column in
  the frame only the first condition is applied.
\<close>

definition content_field :: "dataframe \<Rightarrow> string" where
  "content_field df = (if ''body'' \<in> set (columns df) then ''body'' else ''description'')"

definition filter_conditions :: "dataframe \<Rightarrow> row \<Rightarrow> bool" where
  "filter_conditions df r =
     (if content_field df \<in> set (columns df) then
        notna (r ''title'')
        \<and> notna (r (content_field df))
        \<and> str_strip (r (content_field df)) \<noteq> Str ''''
        \<and> r ''title'' \<noteq> Str ''[Removed]''
        \<and> str_strip (r ''title'') \<noteq> Str ''''
        \<and> r (content_field df) \<noteq> Str ''[Removed]''
      else notna (r ''title''))"

text \<open>
  Lines 305-313: the rows the mask accepts; then, when the frame has a \<^verbatim>\<open>publishedAt\<close>
  column, the column is parsed and the rows whose date is null are dropped.
\<close>

definition filter_batch :: "parser \<Rightarrow> dataframe \<Rightarrow> dataframe" where
  "filter_batch P df =
     (let filtered = df\<lparr>rows := filter (filter_conditions df) (rows df)\<rparr>
      in if ''publishedAt'' \<in> set (columns filtered) then
           (let parsed = to_datetime_coerce P ''publishedAt'' filtered
            in parsed\<lparr>rows := filter (\<lambda>r. notna (r ''publishedAt'')) (rows parsed)\<rparr>)
         else filtered)"

text \<open>\<^verbatim>\<open>filtered_news\<close> (lines 240-364), with \<open>filter_batch\<close> for lines 305-313.\<close>

definition filtered_news ::
  "parser \<Rightarrow> exec_context \<Rightarrow> dataframe \<Rightarrow> (exn + dataframe) \<times> exec_context" where
  "filtered_news P ctx processed_news_df =
     (let ctx1 = log_info (''Filtering '' @ str_nat (len processed_news_df) @ '' processed articles'') ctx;
          initial_count = len processed_news_df
      in
      if empty processed_news_df then
        (Inr processed_news_df, log_info ''No processed articles to filter'' ctx1)
      else
        let (existing_filtered, ctx2) = load_existing ''filtered_news'' ''filtered'' ctx1
        in case getitem ''title'' processed_news_df of
             Inl e \<Rightarrow> (Inl e, ctx2)
           | Inr title \<Rightarrow>
               (let filtered = filter_batch P processed_news_df;
                    removed_count = initial_count - len filtered;
                    ctx3 = log_info (''Removed '' @ str_nat removed_count @
                                     '' invalid articles from current batch'') ctx2
                in case (if \<not> empty existing_filtered
                         then drop_duplicates ''url'' (concat_frames existing_filtered filtered)
                         else Inr filtered) of
                     Inl e \<Rightarrow> (Inl e, ctx3)
                   | Inr merged \<Rightarrow>
                       (let ctx4 =
                              (if \<not> empty existing_filtered
                               then log_info (''Combined '' @ str_nat (len existing_filtered) @
                                      '' existing + '' @ str_nat (len filtered) @ '' new = '' @
                                      str_nat (len merged) @ '' total (removed '' @
                                      str_nat (len existing_filtered + len filtered - len merged) @
                                      '' duplicates)'') ctx3
                               else log_info (''First run: storing '' @ str_nat (len filtered) @
                                      '' filtered articles'') ctx3)
                        in case (if ''publishedAt'' \<in> set (columns merged)
                                 then sort_values ''publishedAt'' merged
                                 else Inr merged) of
                             Inl e \<Rightarrow> (Inl e, ctx4)
                           | Inr final_filtered \<Rightarrow>
                               (case date_range final_filtered of
                                  Inl e \<Rightarrow> (Inl e, ctx4)
                                | Inr dr \<Rightarrow>
                                    (Inr final_filtered,
                                     add_output_metadata
                                       [(''total_articles'', MInt (len final_filtered)),
                                        (''new_articles_filtered'', MInt (len filtered)),
                                        (''removed_articles'', MInt removed_count),
                                        (''existing_articles'', MInt (len existing_filtered)),
                                        (''date_range'', dr)] ctx4)))))"

definition existing_filtered :: "exec_context \<Rightarrow> dataframe" where
  "existing_filtered ctx = fst (load_existing ''filtered_news'' ''filtered'' ctx)"

text \<open>
  A column is non-increasing when no value is followed, anywhere later, by a greater
  one. Nulls compare with nothing.
\<close>

definition non_increasing :: "cell list \<Rightarrow> bool" where
  "non_increasing cs \<longleftrightarrow> sorted_wrt (\<lambda>a b. \<not> cell_less a b) cs"

text \<open>
  The validity predicate of the filtered dataset, for the content field \<open>cf\<close>: title and
  content are not null, not blank and not the sentinel, and the date is not null.
\<close>

definition valid_row :: "string \<Rightarrow> row \<Rightarrow> bool" where
  "valid_row cf r \<longleftrightarrow>
     notna (r ''title'') \<and> str_strip (r ''title'') \<noteq> Str '''' \<and> r ''title'' \<noteq> Str ''[Removed]'' \<and>
     notna (r cf) \<and> str_strip (r cf) \<noteq> Str '''' \<and> r cf \<noteq> Str ''[Removed]'' \<and>
     notna (r ''publishedAt'')"

section \<open>Example inputs\<close>

definition mk_row :: "(string \<times> cell) list \<Rightarrow> row" where
  "mk_row kvs = (\<lambda>c. case map_of kvs c of Some v \<Rightarrow> v | None \<Rightarrow> Null)"

definition ctx_with :: "(string \<Rightarrow> dataframe option) \<Rightarrow> exec_context" where
  "ctx_with tables = \<lparr>db = Database tables, log = [], queries = [], output_metadata = []\<rparr>"

definition row_old :: row where
  "row_old = mk_row [(''url'', Str ''http://example.com/1''), (''title'', Str ''Old'')]"

definition row_new :: row where
  "row_new = mk_row [(''url'', Str ''http://example.com/1''), (''title'', Str ''New'')]"

definition row_A :: row where
  "row_A = mk_row [(''url'', Str ''http://example.com/2''), (''title'', Str ''A'')]"

definition row_B :: row where
  "row_B = mk_row [(''url'', Str ''http://example.com/2''), (''title'', Str ''B'')]"

definition frame_old :: dataframe where
  "frame_old = \<lparr>columns = [''url'', ''title''], rows = [row_old]\<rparr>"

definition frame_new :: dataframe where
  "frame_new = \<lparr>columns = [''url'', ''title''], rows = [row_new]\<rparr>"

definition frame_AB :: dataframe where
  "frame_AB = \<lparr>columns = [''url'', ''title''], rows = [row_A, row_B]\<rparr>"



definition frame_empty_batch :: dataframe where
  "frame_empty_batch = \<lparr>columns = [''title'', ''url'', ''body'', ''dateTime'', ''source''], rows = []\<rparr>"

definition row_null_1 :: row where
  "row_null_1 = mk_row [(''url'', Null), (''title'', Str ''First'')]"

definition row_null_2 :: row where
  "row_null_2 = mk_row [(''url'', Null), (''title'', Str ''Second'')]"

definition frame_null_urls :: dataframe where
  "frame_null_urls = \<lparr>columns = [''url'', ''title''], rows = [row_null_1, row_null_2]\<rparr>"


definition no_tables :: "string \<Rightarrow> dataframe option" where
  "no_tables = Map.empty"

definition ctx_first_run :: exec_context where
  "ctx_first_run = ctx_with no_tables"

definition ctx_old :: exec_context where
  "ctx_old = ctx_with (no_tables(''processed_news'' \<mapsto> frame_old))"

definition frame_two :: dataframe where
  "frame_two = \<lparr>columns = [''url'', ''title''], rows = [row_old, row_A]\<rparr>"

definition ctx_two :: exec_context where
  "ctx_two = ctx_with (no_tables(''processed_news'' \<mapsto> frame_two))"

definition example_parser :: parser where
  "example_parser col s = (if s = ''2024-12-15'' then Some 1734220800000000000 else None)"

definition row_d1 :: row where
  "row_d1 = mk_row [(''title'', Str ''One''), (''url'', Str ''http://example.com/d1''),
                    (''body'', Str ''Body one''), (''publishedAt'', Ts 100)]"

definition row_d2 :: row where
  "row_d2 = mk_row [(''title'', Str ''Two''), (''url'', Str ''http://example.com/d2''),
                    (''body'', Str ''Body two''), (''publishedAt'', Str ''2024-12-15'')]"

definition row_d3 :: row where
  "row_d3 = mk_row [(''title'', Str ''Three''), (''url'', Str ''http://example.com/d3''),
                    (''body'', Str ''Body three''), (''publishedAt'', Ts 300)]"

definition row_d4 :: row where
  "row_d4 = mk_row [(''title'', Str ''Four''), (''url'', Str ''http://example.com/d4''),
                    (''body'', Str ''[Removed]''), (''publishedAt'', Ts 400)]"

definition frame_dates :: dataframe where
  "frame_dates = \<lparr>columns = [''title'', ''url'', ''body'', ''publishedAt''],
                   rows = [row_d1, row_d2, row_d3, row_d4]\<rparr>"

definition row_kept :: row where
  "row_kept = mk_row [(''title'', Str ''Kept''), (''url'', Str ''http://example.com/k''),
                      (''body'', Str ''Body kept''), (''publishedAt'', Ts 200)]"

definition frame_kept :: dataframe where
  "frame_kept = \<lparr>columns = [''title'', ''url'', ''body'', ''publishedAt''], rows = [row_kept]\<rparr>"

definition ctx_kept :: exec_context where
  "ctx_kept = ctx_with (no_tables(''filtered_news'' \<mapsto> frame_kept))"

definition row_plain :: row where
  "row_plain = mk_row [(''title'', Str ''Plain''), (''url'', Str ''http://example.com/p''),
                       (''publishedAt'', Ts 5)]"

definition frame_no_content :: dataframe where
  "frame_no_content = \<lparr>columns = [''title'', ''url'', ''publishedAt''], rows = [row_plain]\<rparr>"

definition frame_one :: dataframe where
  "frame_one = \<lparr>columns = [''title'', ''url'', ''body'', ''publishedAt''], rows = [row_d3]\<rparr>"

definition row_removed :: row where
  "row_removed = mk_row [(''title'', Str ''[Removed]''), (''url'', Str ''http://example.com/r'')]"

definition row_blank :: row where
  "row_blank = mk_row [(''title'', Str ''  ''), (''url'', Str ''http://example.com/b'')]"

definition row_untitled :: row where
  "row_untitled = mk_row [(''title'', Null), (''url'', Str ''http://example.com/n'')]"

definition frame_titles :: dataframe where
  "frame_titles = \<lparr>columns = [''title'', ''url''], rows = [row_removed, row_untitled, row_blank]\<rparr>"

section \<open>Properties of the frame operations\<close>

lemma keep_first_filter:
  "keep_first k (S \<union> T) xs = filter (\<lambda>r. k r \<notin> S) (keep_first k T xs)"
proof (induction xs arbitrary: T)
  case Nil
  show ?case by simp
next
  case (Cons x xs)
  have ins: "insert (k x) (S \<union> T) = S \<union> insert (k x) T" by blast
  show ?case
  proof (cases "k x \<in> T")
    case True
    then show ?thesis using Cons.IH [of T] by simp
  next
    case False
    note notT = this
    show ?thesis
    proof (cases "k x \<in> S")
      case True
      then have "S \<union> T = S \<union> insert (k x) T" by blast
      then show ?thesis using True notT Cons.IH [of "insert (k x) T"] by simp
    next
      case False
      then show ?thesis using notT ins Cons.IH [of "insert (k x) T"] by simp
    qed
  qed
qed

lemma keep_first_seen: "keep_first k S xs = filter (\<lambda>r. k r \<notin> S) (keep_first k {} xs)"
  using keep_first_filter [of k S "{}" xs] by simp

lemma keep_first_keys: "k ` set (keep_first k S xs) = k ` set xs - S"
  by (induction xs arbitrary: S) auto

lemma keep_first_subset: "set (keep_first k S xs) \<subseteq> set xs"
  by (induction xs arbitrary: S) auto

lemma keep_first_distinct: "distinct (map k (keep_first k S xs))"
proof (induction xs arbitrary: S)
  case Nil
  show ?case by simp
next
  case (Cons x xs)
  have "k x \<notin> k ` set (keep_first k (insert (k x) S) xs)"
    by (simp add: keep_first_keys)
  then show ?case using Cons.IH by simp
qed

lemma keep_first_id:
  "distinct (map k xs) \<Longrightarrow> k ` set xs \<inter> S = {} \<Longrightarrow> keep_first k S xs = xs"
proof (induction xs arbitrary: S)
  case Nil
  show ?case by simp
next
  case (Cons x xs)
  from Cons.prems have "k ` set xs \<inter> insert (k x) S = {}" by auto
  with Cons.prems Cons.IH [of "insert (k x) S"] show ?case by auto
qed

lemma keep_first_append:
  "keep_first k S (xs @ ys) = keep_first k S xs @ keep_first k (S \<union> k ` set xs) ys"
proof (induction xs arbitrary: S)
  case Nil
  show ?case by simp
next
  case (Cons x xs)
  have "insert (k x) S \<union> k ` set xs = S \<union> k ` set (x # xs)" by auto
  moreover have "k x \<in> S \<Longrightarrow> S \<union> k ` set xs = S \<union> k ` set (x # xs)" by auto
  ultimately show ?case using Cons.IH by simp
qed

lemma keep_first_length: "length (keep_first k S xs) \<le> length xs"
  by (induction xs arbitrary: S) (auto simp: le_SucI)

lemma keep_first_take1:
  "filter (\<lambda>r. k r = u) (keep_first k S xs) =
     (if u \<in> S then [] else take 1 (filter (\<lambda>r. k r = u) xs))"
proof (induction xs arbitrary: S)
  case Nil
  show ?case by simp
next
  case (Cons x xs)
  show ?case
  proof (cases "k x = u")
    case True
    then show ?thesis using Cons.IH [of "insert (k x) S"] Cons.IH [of S] by simp
  next
    case False
    then show ?thesis using Cons.IH [of "insert (k x) S"] Cons.IH [of S] by auto
  qed
qed

lemma keep_first_nonempty: "keep_first k {} xs = [] \<longleftrightarrow> xs = []"
  by (cases xs) auto

lemma load_existing_log_info:
  "fst (load_existing t w (log_info m ctx)) = fst (load_existing t w ctx)"
  by (cases "db ctx") (auto simp: load_existing_def log_info_def Let_def split: option.splits)

lemma processed_news_result:
  "fst (processed_news ctx raw) =
     (if empty raw then Inr raw
      else case drop_duplicates ''url'' raw of
             Inl e \<Rightarrow> Inl e
           | Inr p \<Rightarrow>
               (case (if \<not> empty (fst (load_existing ''processed_news'' ''processed'' ctx))
                      then drop_duplicates ''url''
                             (concat_frames (fst (load_existing ''processed_news'' ''processed'' ctx)) p)
                      else Inr p) of
                  Inl e \<Rightarrow> Inl e
                | Inr f \<Rightarrow> (case date_range f of Inl e \<Rightarrow> Inl e | Inr d \<Rightarrow> Inr f)))"
proof -
  define ctx1 where
    "ctx1 = log_info (''Processing '' @ str_nat (len raw) @ '' raw articles'') ctx"
  obtain E ctx2 where le: "load_existing ''processed_news'' ''processed'' ctx1 = (E, ctx2)"
    by (cases "load_existing ''processed_news'' ''processed'' ctx1") blast
  have "fst (load_existing ''processed_news'' ''processed'' ctx1) = E"
    using le by simp
  then have E: "fst (load_existing ''processed_news'' ''processed'' ctx) = E"
    unfolding ctx1_def by (simp only: load_existing_log_info)
  show ?thesis
    unfolding processed_news_def Let_def E ctx1_def [symmetric] le prod.case
    by (simp split: sum.splits)
qed

lemma restrict_wf: "wf df \<Longrightarrow> map (restrict (columns df)) (rows df) = rows df"
proof -
  assume w: "wf df"
  have "\<And>r. r \<in> set (rows df) \<Longrightarrow> restrict (columns df) r = r"
    using w by (auto simp: wf_def restrict_def fun_eq_iff)
  then show ?thesis by (simp add: map_idI)
qed

lemma restrict_in: "c \<in> set cs \<Longrightarrow> restrict cs r c = r c"
  by (simp add: restrict_def)

lemma keep_first_map: "keep_first k S (map f xs) = map f (keep_first (\<lambda>x. k (f x)) S xs)"
  by (induction xs arbitrary: S) auto

lemma keep_first_distinct_filter:
  "distinct (map k zs) \<Longrightarrow> keep_first k S zs = filter (\<lambda>r. k r \<notin> S) zs"
proof (induction zs arbitrary: S)
  case Nil
  show ?case by simp
next
  case (Cons z zs)
  from Cons.prems have fresh: "k z \<notin> k ` set zs" and d: "distinct (map k zs)" by auto
  have "filter (\<lambda>r. k r \<notin> insert (k z) S) zs = filter (\<lambda>r. k r \<notin> S) zs"
    using fresh by (intro filter_cong) (auto simp: image_iff)
  then show ?case using Cons.IH [OF d] by simp
qed

lemma keep_first_twice:
  "keep_first k S (xs @ keep_first k {} ys) = keep_first k S (xs @ ys)"
proof -
  let ?T = "S \<union> k ` set xs"
  have "keep_first k ?T (keep_first k {} ys) = filter (\<lambda>r. k r \<notin> ?T) (keep_first k {} ys)"
    by (rule keep_first_distinct_filter) (rule keep_first_distinct)
  also have "\<dots> = keep_first k ?T ys"
    by (rule keep_first_seen [symmetric])
  finally show ?thesis by (simp add: keep_first_append)
qed

lemma drop_duplicates_Inr:
  "drop_duplicates c df = Inr out \<Longrightarrow> \<not> empty df \<Longrightarrow>
     c \<in> set (columns df) \<and> out = df\<lparr>rows := keep_first (\<lambda>r. r c) {} (rows df)\<rparr>"
  by (auto simp: drop_duplicates_def split: if_splits)

lemma empty_concat_frames: "\<not> empty a \<Longrightarrow> \<not> empty (concat_frames a b)"
  by (simp add: empty_def concat_frames_def)

lemma processed_news_Inr:
  assumes res: "fst (processed_news ctx raw) = Inr out" and ne: "\<not> empty raw"
  shows "''url'' \<in> set (columns raw) \<and>
         out = (let acc = (if empty (fst (load_existing ''processed_news'' ''processed'' ctx))
                           then raw
                           else concat_frames (fst (load_existing ''processed_news'' ''processed'' ctx)) raw)
                in acc\<lparr>rows := keep_first (\<lambda>r. r ''url'') {} (rows acc)\<rparr>)"
proof -
  define E where "E = fst (load_existing ''processed_news'' ''processed'' ctx)"
  define p where "p = raw\<lparr>rows := keep_first (\<lambda>r. r ''url'') {} (rows raw)\<rparr>"
  from res ne obtain p' where p': "drop_duplicates ''url'' raw = Inr p'"
    by (auto simp: processed_news_result split: sum.splits)
  from drop_duplicates_Inr [OF p' ne] have url: "''url'' \<in> set (columns raw)" and pp: "p' = p"
    by (simp_all add: p_def)
  show ?thesis
  proof (cases "empty E")
    case True
    with res ne p' pp have "out = p"
      by (auto simp: processed_news_result E_def split: sum.splits)
    with True url show ?thesis by (simp add: E_def [symmetric] p_def Let_def)
  next
    case False
    with res ne p' pp have dd: "drop_duplicates ''url'' (concat_frames E p) = Inr out"
      by (auto simp: processed_news_result E_def split: sum.splits)
    have nec: "\<not> empty (concat_frames E p)" using False by (rule empty_concat_frames)
    have k: "(\<lambda>x. restrict (columns raw) x ''url'') = (\<lambda>r. r ''url'')"
      using url by (simp add: restrict_in)
    have "rows (concat_frames E p) =
            map (restrict (columns E)) (rows E) @
            keep_first (\<lambda>r. r ''url'') {} (map (restrict (columns raw)) (rows raw))"
      by (simp add: concat_frames_def p_def keep_first_map k)
    then have "keep_first (\<lambda>r. r ''url'') {} (rows (concat_frames E p)) =
               keep_first (\<lambda>r. r ''url'') {} (rows (concat_frames E raw))"
      by (simp add: keep_first_twice concat_frames_def)
    moreover have "columns (concat_frames E p) = columns (concat_frames E raw)"
      by (simp add: concat_frames_def p_def)
    ultimately have "out = (concat_frames E raw)
                      \<lparr>rows := keep_first (\<lambda>r. r ''url'') {} (rows (concat_frames E raw))\<rparr>"
      using drop_duplicates_Inr [OF dd nec] by (simp add: concat_frames_def)
    with False url show ?thesis by (simp add: E_def [symmetric] Let_def)
  qed
qed

lemma filter_key_distinct:
  "distinct (map k xs) \<Longrightarrow> x \<in> set xs \<Longrightarrow> filter (\<lambda>r. k r = k x) xs = [x]"
proof (induction xs)
  case Nil
  then show ?case by simp
next
  case (Cons y ys)
  show ?case
  proof (cases "x = y")
    case True
    have "filter (\<lambda>r. k r = k y) ys = []"
      using Cons.prems(1) by (auto simp: filter_empty_conv image_iff)
    with True show ?thesis by simp
  next
    case False
    with Cons.prems have "x \<in> set ys" "k y \<noteq> k x" by (auto simp: image_iff)
    with Cons show ?thesis by simp
  qed
qed

lemma processed_news_rows:
  assumes "fst (processed_news ctx raw) = Inr out" and "\<not> empty raw"
  shows "rows out =
           keep_first (\<lambda>r. r ''url'') {}
             (rows (if empty (existing_processed ctx) then raw
                    else concat_frames (existing_processed ctx) raw))"
  using processed_news_Inr [OF assms] by (simp add: existing_processed_def Let_def)

lemma date_range_no_column:
  "''publishedAt'' \<notin> set (columns df) \<Longrightarrow> date_range df = Inr (MText ''N/A'')"
  by (simp add: date_range_def)

lemma wf_frame_old: "wf frame_old"
  by (simp add: wf_def frame_old_def row_old_def mk_row_def)


lemma concat_frames_self:
  "wf df \<Longrightarrow> concat_frames df df = \<lparr>columns = columns df, rows = rows df @ rows df\<rparr>"
  by (simp add: concat_frames_def restrict_wf)

lemma keep_first_self:
  "distinct (map k xs) \<Longrightarrow> keep_first k {} (xs @ xs) = xs"
proof -
  assume d: "distinct (map k xs)"
  have "keep_first k (k ` set xs) xs = filter (\<lambda>r. k r \<notin> k ` set xs) xs"
    using d by (rule keep_first_distinct_filter)
  also have "\<dots> = []" by (simp add: filter_empty_conv)
  finally show ?thesis using d by (simp add: keep_first_append keep_first_id)
qed

lemma existing_processed_Database:
  "db ctx = Database tables \<Longrightarrow> tables ''processed_news'' = Some df \<Longrightarrow>
     existing_processed ctx = df"
  by (simp add: existing_processed_def load_existing_def Let_def)


lemma fst_case_sum:
  "fst (case x of Inl e \<Rightarrow> (Inl e, c) | Inr v \<Rightarrow> g v) =
     (case x of Inl e \<Rightarrow> Inl e | Inr v \<Rightarrow> fst (g v))"
  by (cases x) simp_all

lemma filtered_news_result:
  "fst (filtered_news P ctx df) =
     (if empty df then Inr df
      else case getitem ''title'' df of
             Inl e \<Rightarrow> Inl e
           | Inr t \<Rightarrow>
               (case (if \<not> empty (existing_filtered ctx)
                      then drop_duplicates ''url'' (concat_frames (existing_filtered ctx) (filter_batch P df))
                      else Inr (filter_batch P df)) of
                  Inl e \<Rightarrow> Inl e
                | Inr merged \<Rightarrow>
                    (case (if ''publishedAt'' \<in> set (columns merged)
                           then sort_values ''publishedAt'' merged else Inr merged) of
                       Inl e \<Rightarrow> Inl e
                     | Inr f \<Rightarrow> (case date_range f of Inl e \<Rightarrow> Inl e | Inr d \<Rightarrow> Inr f))))"
proof -
  define ctx1 where
    "ctx1 = log_info (''Filtering '' @ str_nat (len df) @ '' processed articles'') ctx"
  obtain E ctx2 where le: "load_existing ''filtered_news'' ''filtered'' ctx1 = (E, ctx2)"
    by (cases "load_existing ''filtered_news'' ''filtered'' ctx1") blast
  have "fst (load_existing ''filtered_news'' ''filtered'' ctx1) = E"
    using le by simp
  then have E: "existing_filtered ctx = E"
    unfolding ctx1_def existing_filtered_def by (simp only: load_existing_log_info)
  show ?thesis
    unfolding filtered_news_def Let_def E ctx1_def [symmetric] le prod.case
    by (simp only: fst_case_sum if_distrib [of fst] fst_conv)
qed

lemma set_insert_desc: "set (insert_desc k x xs) = insert x (set xs)"
  by (induction xs) auto

lemma length_insert_desc: "length (insert_desc k x xs) = Suc (length xs)"
  by (induction xs) auto

lemma set_sort_desc: "set (sort_desc k xs) = set xs"
  by (induction xs) (simp_all add: sort_desc_def set_insert_desc)

lemma length_sort_desc: "length (sort_desc k xs) = length xs"
  by (induction xs) (simp_all add: sort_desc_def length_insert_desc)

lemma cell_less_asym: "cell_less a b \<Longrightarrow> \<not> cell_less b a"
  by (cases a; cases b) auto

lemma cell_less_Null [simp]: "\<not> cell_less a Null" "\<not> cell_less Null a"
  by (cases a; simp)+

lemma cell_ge_trans_ts:
  "is_ts a \<Longrightarrow> is_ts b \<Longrightarrow> is_ts c \<Longrightarrow> \<not> cell_less a b \<Longrightarrow> \<not> cell_less b c \<Longrightarrow> \<not> cell_less a c"
  by (cases a; cases b; cases c) simp_all

lemma cell_ge_trans_str:
  assumes "is_str a" "is_str b" "is_str c" "\<not> cell_less a b" "\<not> cell_less b c"
  shows "\<not> cell_less a c"
proof -
  from assms(1-3) obtain x y z where s: "a = Str x" "b = Str y" "c = Str z"
    by (cases a; cases b; cases c) simp_all
  from assms(4,5) have "y \<le> x" "z \<le> y" unfolding s by (simp_all only: cell_less.simps not_less)
  then have "z \<le> x" by (rule order_trans [rotated])
  then show ?thesis unfolding s by (simp only: cell_less.simps not_less)
qed

lemma sorted_insert_desc:
  assumes tr: "\<And>a b c. a \<in> A \<Longrightarrow> b \<in> A \<Longrightarrow> c \<in> A \<Longrightarrow>
                 \<not> cell_less a b \<Longrightarrow> \<not> cell_less b c \<Longrightarrow> \<not> cell_less a c"
    and "k x \<in> A" and "k ` set xs \<subseteq> A"
    and "sorted_wrt (\<lambda>a b. \<not> cell_less (k a) (k b)) xs"
  shows "sorted_wrt (\<lambda>a b. \<not> cell_less (k a) (k b)) (insert_desc k x xs)"
  using assms(2-)
proof (induction xs)
  case Nil
  show ?case by simp
next
  case (Cons y ys)
  show ?case
  proof (cases "cell_less (k x) (k y)")
    case True
    have "sorted_wrt (\<lambda>a b. \<not> cell_less (k a) (k b)) (insert_desc k x ys)"
      using Cons by simp
    moreover have "\<forall>z \<in> set (insert_desc k x ys). \<not> cell_less (k y) (k z)"
      using Cons.prems True by (auto simp: set_insert_desc dest: cell_less_asym)
    ultimately show ?thesis using True by simp
  next
    case False
    have "\<not> cell_less (k x) (k z)" if "z \<in> set ys" for z
    proof -
      from Cons.prems that have "\<not> cell_less (k y) (k z)" by simp
      moreover from Cons.prems that have "k x \<in> A" "k y \<in> A" "k z \<in> A" by auto
      ultimately show ?thesis using False tr by blast
    qed
    with False Cons.prems show ?thesis by simp
  qed
qed

lemma sorted_sort_desc:
  assumes tr: "\<And>a b c. a \<in> A \<Longrightarrow> b \<in> A \<Longrightarrow> c \<in> A \<Longrightarrow>
                 \<not> cell_less a b \<Longrightarrow> \<not> cell_less b c \<Longrightarrow> \<not> cell_less a c"
    and "k ` set xs \<subseteq> A"
  shows "sorted_wrt (\<lambda>a b. \<not> cell_less (k a) (k b)) (sort_desc k xs)"
  using assms(2)
proof (induction xs)
  case Nil
  show ?case by (simp add: sort_desc_def)
next
  case (Cons x xs)
  have "sorted_wrt (\<lambda>a b. \<not> cell_less (k a) (k b)) (insert_desc k x (sort_desc k xs))"
  proof (rule sorted_insert_desc [where A = A])
    show "\<And>a b c. a \<in> A \<Longrightarrow> b \<in> A \<Longrightarrow> c \<in> A \<Longrightarrow>
            \<not> cell_less a b \<Longrightarrow> \<not> cell_less b c \<Longrightarrow> \<not> cell_less a c"
      by (rule tr)
    show "k x \<in> A" using Cons.prems by simp
    show "k ` set (sort_desc k xs) \<subseteq> A" using Cons.prems by (simp add: set_sort_desc)
    show "sorted_wrt (\<lambda>a b. \<not> cell_less (k a) (k b)) (sort_desc k xs)"
      using Cons by simp
  qed
  then show ?case by (simp add: sort_desc_def)
qed

lemma comparable_kinds:
  assumes "comparable cs"
  shows "(\<forall>c \<in> set cs. c \<noteq> Null \<longrightarrow> is_ts c) \<or> (\<forall>c \<in> set cs. c \<noteq> Null \<longrightarrow> is_str c)"
proof (rule ccontr)
  assume "\<not> ?thesis"
  then obtain a b where a: "a \<in> set cs" "a \<noteq> Null" "\<not> is_ts a"
    and b: "b \<in> set cs" "b \<noteq> Null" "\<not> is_str b" by blast
  from a(2,3) have "is_str a" by (cases a) auto
  moreover from b(2,3) have "is_ts b" by (cases b) auto
  ultimately show False using assms a(1) b(1) by (auto simp: comparable_def list_ex_iff)
qed

lemma sorted_sort_desc_comparable:
  assumes "comparable (map k xs)"
  shows "sorted_wrt (\<lambda>a b. \<not> cell_less (k a) (k b)) (sort_desc k (filter (\<lambda>r. notna (k r)) xs))"
proof -
  from comparable_kinds [OF assms]
  consider "k ` set (filter (\<lambda>r. notna (k r)) xs) \<subseteq> {c. is_ts c}"
    | "k ` set (filter (\<lambda>r. notna (k r)) xs) \<subseteq> {c. is_str c}"
    by (auto simp: notna_def)
  then show ?thesis
  proof cases
    case 1
    show ?thesis
      by (rule sorted_sort_desc [where A = "{c. is_ts c}", OF _ 1]) (use cell_ge_trans_ts in blast)
  next
    case 2
    show ?thesis
      by (rule sorted_sort_desc [where A = "{c. is_str c}", OF _ 2]) (use cell_ge_trans_str in blast)
  qed
qed

lemma sort_values_Inr:
  "sort_values c df = Inr out \<Longrightarrow>
     c \<in> set (columns df) \<and> comparable (column c df) \<and>
     out = df\<lparr>rows := sort_desc (\<lambda>r. r c) (filter (\<lambda>r. notna (r c)) (rows df)) @
                       filter (\<lambda>r. \<not> notna (r c)) (rows df)\<rparr>"
  unfolding sort_values_def by (simp split: if_splits)

lemma sorted_wrt_all:
  "(\<And>x y. x \<in> set xs \<Longrightarrow> y \<in> set xs \<Longrightarrow> R x y) \<Longrightarrow> sorted_wrt R xs"
  by (induction xs) auto

lemma sort_values_non_increasing:
  assumes "sort_values c df = Inr out"
  shows "non_increasing (column c out)"
proof -
  from sort_values_Inr [OF assms]
  have cmp: "comparable (map (\<lambda>r. r c) (rows df))"
    and out: "rows out = sort_desc (\<lambda>r. r c) (filter (\<lambda>r. notna (r c)) (rows df)) @
                       filter (\<lambda>r. \<not> notna (r c)) (rows df)"
    by (simp_all add: column_def)
  have "sorted_wrt (\<lambda>a b. \<not> cell_less (a c) (b c)) (filter (\<lambda>r. \<not> notna (r c)) (rows df))"
    by (rule sorted_wrt_all) (simp add: notna_def)
  then have "sorted_wrt (\<lambda>a b. \<not> cell_less (a c) (b c)) (rows out)"
    unfolding out
    using sorted_sort_desc_comparable [OF cmp]
    by (simp add: sorted_wrt_append notna_def)
  then show ?thesis by (simp add: non_increasing_def column_def sorted_wrt_map)
qed

lemma sort_values_len: "sort_values c df = Inr out \<Longrightarrow> len out = len df"
proof -
  assume "sort_values c df = Inr out"
  from sort_values_Inr [OF this]
  have "length (rows out) =
          length (filter (\<lambda>r. notna (r c)) (rows df)) + length (filter (\<lambda>r. \<not> notna (r c)) (rows df))"
    by (simp add: length_sort_desc)
  then show ?thesis by (simp add: len_def sum_length_filter_compl)
qed


lemma sort_values_set: "sort_values c df = Inr out \<Longrightarrow> set (rows out) = set (rows df)"
proof -
  assume "sort_values c df = Inr out"
  from sort_values_Inr [OF this]
  have "set (rows out) = {r \<in> set (rows df). notna (r c)} \<union> {r \<in> set (rows df). \<not> notna (r c)}"
    by (simp add: set_sort_desc)
  then show ?thesis by blast
qed

lemma sort_values_columns: "sort_values c df = Inr out \<Longrightarrow> columns out = columns df"
  using sort_values_Inr [of c df out] by simp

lemma wf_frame_two: "wf frame_two"
  by (simp add: wf_def frame_two_def row_old_def row_A_def mk_row_def)

lemma filtered_news_Inr:
  assumes res: "fst (filtered_news P ctx df) = Inr out" and ne: "\<not> empty df"
  obtains merged where "''title'' \<in> set (columns df)"
    and "(if \<not> empty (existing_filtered ctx)
          then drop_duplicates ''url'' (concat_frames (existing_filtered ctx) (filter_batch P df))
          else Inr (filter_batch P df)) = Inr merged"
    and "(if ''publishedAt'' \<in> set (columns merged)
          then sort_values ''publishedAt'' merged else Inr merged) = Inr out"
proof -
  from res ne have t: "''title'' \<in> set (columns df)"
    by (auto simp: filtered_news_result getitem_def split: if_splits)
  then have g: "getitem ''title'' df = Inr (column ''title'' df)" by (simp add: getitem_def)
  define M where "M = (if \<not> empty (existing_filtered ctx)
          then drop_duplicates ''url'' (concat_frames (existing_filtered ctx) (filter_batch P df))
          else Inr (filter_batch P df))"
  from res ne g obtain merged where m: "M = Inr merged"
    unfolding filtered_news_result M_def [symmetric] by (cases M) simp_all
  define S where "S = (if ''publishedAt'' \<in> set (columns merged)
          then sort_values ''publishedAt'' merged else Inr merged)"
  from res ne g m have s: "S = Inr out"
    unfolding filtered_news_result M_def [symmetric] S_def
    by (cases "if ''publishedAt'' \<in> set (columns merged)
          then sort_values ''publishedAt'' merged else Inr merged")
       (simp_all split: sum.splits)
  from t m s that show thesis unfolding M_def S_def by blast
qed

lemma getitem_Inr: "getitem c df = Inr vs \<Longrightarrow> c \<in> set (columns df) \<and> vs = column c df"
  by (auto simp: getitem_def split: if_splits)

lemma filtered_news_len:
  assumes res: "fst (filtered_news P ctx df) = Inr out" and ne: "\<not> empty df"
    and E: "\<not> empty (existing_filtered ctx)"
  shows "len out = length (keep_first (\<lambda>r. r ''url'') {}
            (rows (concat_frames (existing_filtered ctx) (filter_batch P df))))"
proof -
  from filtered_news_Inr [OF res ne] E obtain merged
    where m: "drop_duplicates ''url'' (concat_frames (existing_filtered ctx) (filter_batch P df)) = Inr merged"
      and s: "(if ''publishedAt'' \<in> set (columns merged)
          then sort_values ''publishedAt'' merged else Inr merged) = Inr out" by auto
  have "len out = len merged"
    using s by (auto simp: sort_values_len split: if_splits)
  moreover have "\<not> empty (concat_frames (existing_filtered ctx) (filter_batch P df))"
    using E by (rule empty_concat_frames)
  ultimately show ?thesis using drop_duplicates_Inr [OF m] by (simp add: len_def)
qed

lemma filter_batch_columns: "columns (filter_batch P df) = columns df"
  by (simp add: filter_batch_def Let_def to_datetime_coerce_def)

lemma filter_batch_rows:
  "rows (filter_batch P df) =
     (if ''publishedAt'' \<in> set (columns df) then
        filter (\<lambda>r. notna (r ''publishedAt''))
          (map (\<lambda>r. r(''publishedAt'' :=
                  to_datetime_cell P
                    (column ''publishedAt'' (df\<lparr>rows := filter (filter_conditions df) (rows df)\<rparr>))
                    (r ''publishedAt'')))
             (filter (filter_conditions df) (rows df)))
      else filter (filter_conditions df) (rows df))"
  by (simp add: filter_batch_def Let_def to_datetime_coerce_def)

lemma existing_first_run: "existing_filtered ctx_first_run = DataFrame"
  by (simp add: existing_filtered_def load_existing_def ctx_first_run_def ctx_with_def
        no_tables_def Let_def)

lemma existing_kept: "existing_filtered ctx_kept = frame_kept"
  by (simp add: existing_filtered_def load_existing_def ctx_kept_def ctx_with_def
        no_tables_def Let_def)

lemma run_dates_first:
  "\<exists>out. fst (filtered_news example_parser ctx_first_run frame_dates) = Inr out \<and>
         getitem ''publishedAt'' out = Inr [Ts 1734220800000000000, Ts 300, Ts 100]"
  by (simp add: filtered_news_result existing_first_run)
     (simp add: getitem_def DataFrame_def empty_def frame_dates_def filter_batch_def Let_def
        to_datetime_coerce_def filter_conditions_def content_field_def column_def notna_def
        row_d1_def row_d2_def row_d3_def row_d4_def mk_row_def example_parser_def
        sort_values_def comparable_def sort_desc_def date_range_def strip_def is_space_def)

lemma wf_frame_kept: "wf frame_kept"
  by (simp add: wf_def frame_kept_def row_kept_def mk_row_def)

lemma run_one_kept:
  "\<exists>out. fst (filtered_news example_parser ctx_kept frame_one) = Inr out \<and> len out = 2"
proof -
  have F: "filter_batch example_parser frame_one = frame_one"
    by (simp add: frame_one_def filter_batch_def Let_def to_datetime_coerce_def
        filter_conditions_def content_field_def column_def notna_def row_d3_def mk_row_def
        strip_def is_space_def fun_upd_idem_iff)
  have C: "rows (concat_frames frame_kept frame_one) = [row_kept, row_d3] \<and>
           columns (concat_frames frame_kept frame_one) = [''title'', ''url'', ''body'', ''publishedAt'']"
    using wf_frame_kept
    by (simp add: concat_frames_def restrict_wf)
       (simp add: frame_kept_def frame_one_def restrict_def row_d3_def mk_row_def fun_eq_iff)
  have D: "drop_duplicates ''url'' (concat_frames frame_kept frame_one) =
           Inr ((concat_frames frame_kept frame_one)\<lparr>rows := [row_kept, row_d3]\<rparr>)"
    by (simp add: drop_duplicates_def empty_def C)
       (simp add: row_kept_def row_d3_def mk_row_def)
  have ne: "\<not> empty frame_one" "\<not> empty frame_kept"
    by (simp_all add: empty_def frame_one_def frame_kept_def)
  have g: "getitem ''title'' frame_one = Inr (column ''title'' frame_one)"
    by (simp add: getitem_def frame_one_def)
  have S: "sort_values ''publishedAt'' ((concat_frames frame_kept frame_one)\<lparr>rows := [row_kept, row_d3]\<rparr>)
           = Inr ((concat_frames frame_kept frame_one)\<lparr>rows := [row_d3, row_kept]\<rparr>)"
    by (simp add: sort_values_def C comparable_def column_def sort_desc_def notna_def)
       (simp add: row_kept_def row_d3_def mk_row_def)
  have R: "date_range ((concat_frames frame_kept frame_one)\<lparr>rows := [row_d3, row_kept]\<rparr>)
           = Inr (MRange (Ts 200) (Ts 300))"
    by (simp add: date_range_def C empty_def comparable_def column_def)
       (simp add: row_kept_def row_d3_def mk_row_def)
  show ?thesis
    by (simp add: filtered_news_result existing_kept F D ne g C S R len_def)
qed

lemma filter_batch_valid:
  assumes "content_field df \<in> set (columns df)" and "''publishedAt'' \<in> set (columns df)"
    and "r \<in> set (rows (filter_batch P df))"
  shows "valid_row (content_field df) r"
proof -
  from assms(2,3) obtain r0 where r0: "r0 \<in> set (rows df)" "filter_conditions df r0"
    and r: "r = r0(''publishedAt'' :=
                  to_datetime_cell P
                    (column ''publishedAt'' (df\<lparr>rows := filter (filter_conditions df) (rows df)\<rparr>))
                    (r0 ''publishedAt''))"
    and n: "notna (r ''publishedAt'')"
    by (auto simp: filter_batch_rows)
  have cf: "content_field df \<noteq> ''publishedAt''" by (simp add: content_field_def)
  from r0(2) assms(1) cf n show ?thesis
    unfolding r by (simp add: filter_conditions_def valid_row_def)
qed

lemma valid_row_restrict:
  "valid_row cf r \<Longrightarrow> ''title'' \<in> set cs \<Longrightarrow> cf \<in> set cs \<Longrightarrow> ''publishedAt'' \<in> set cs \<Longrightarrow>
     valid_row cf (restrict cs r)"
  by (simp add: valid_row_def restrict_def)

lemma keep_first_member:
  assumes "x \<in> set xs" and "distinct (map k xs)" and "k x \<notin> S"
  shows "x \<in> set (keep_first k S xs)"
  using assms by (simp add: keep_first_distinct_filter)

lemma filter_conditions_no_content:
  "''body'' \<notin> set (columns df) \<Longrightarrow> ''description'' \<notin> set (columns df) \<Longrightarrow>
     filter_conditions df r = notna (r ''title'')"
  by (simp add: filter_conditions_def content_field_def)

lemma filter_batch_keeps:
  assumes "r \<in> set (rows df)" and "filter_conditions df r"
    and "''publishedAt'' \<in> set (columns df) \<longrightarrow> is_ts (r ''publishedAt'')"
  shows "r \<in> set (rows (filter_batch P df))"
proof (cases "''publishedAt'' \<in> set (columns df)")
  case False
  with assms(1,2) show ?thesis by (simp add: filter_batch_rows)
next
  case True
  with assms(3) obtain t where t: "r ''publishedAt'' = Ts t" by (cases "r ''publishedAt''") auto
  let ?conv = "\<lambda>r. r(''publishedAt'' :=
                  to_datetime_cell P
                    (column ''publishedAt'' (df\<lparr>rows := filter (filter_conditions df) (rows df)\<rparr>))
                    (r ''publishedAt''))"
  have "?conv r = r" using t by (simp add: fun_upd_idem_iff)
  moreover from assms(1,2) have "r \<in> set (filter (filter_conditions df) (rows df))" by simp
  ultimately have "r \<in> ?conv ` set (filter (filter_conditions df) (rows df))"
    by (rule image_eqI [OF sym])
  moreover have "notna (r ''publishedAt'')" using t by (simp add: notna_def)
  ultimately show ?thesis using True by (simp add: filter_batch_rows)
qed

lemma filter_batch_urls:
  "distinct (map (\<lambda>r. r ''url'') (rows df)) \<Longrightarrow>
     distinct (map (\<lambda>r. r ''url'') (rows (filter_batch P df)))"
proof -
  assume d: "distinct (map (\<lambda>r. r ''url'') (rows df))"
  have f: "distinct (map (\<lambda>r. r ''url'') (filter p (rows df)))" for p
    using d by (rule distinct_map_filter)
  show ?thesis
    by (simp add: filter_batch_rows f distinct_map_filter comp_def)
qed

lemma wf_filter_batch: "wf df \<Longrightarrow> wf (filter_batch P df)"
  by (auto simp: wf_def filter_batch_rows filter_batch_columns)

lemma run_titles_first:
  "fst (filtered_news example_parser ctx_first_run frame_titles)
     = Inr (frame_titles\<lparr>rows := [row_removed, row_blank]\<rparr>)"
  by (simp add: filtered_news_result existing_first_run)
     (simp add: getitem_def DataFrame_def empty_def frame_titles_def filter_batch_def
        Let_def filter_conditions_def content_field_def column_def
        notna_def row_removed_def row_blank_def row_untitled_def mk_row_def date_range_def)

section \<open>The claims\<close>

text \<open>C3\<close>
theorem first_occurrence_of_url_wins:
  assumes "fst (processed_news ctx raw) = Inr out" and "''url'' \<in> set (columns raw)"
  shows "(\<not> empty (existing_processed ctx) \<and> wf (existing_processed ctx) \<and>
          distinct (map (\<lambda>r. r ''url'') (rows (existing_processed ctx))) \<and>
          r1 \<in> set (rows (existing_processed ctx)) \<and> r2 \<in> set (rows raw) \<and>
          r1 ''url'' = r2 ''url''
          \<longrightarrow> filter (\<lambda>r. r ''url'' = r2 ''url'') (rows out) = [r1]) \<and>
         (empty (existing_processed ctx) \<and> rows raw = [a, b] \<and> a ''url'' = b ''url'' \<and>
          a ''title'' = Str ''A'' \<and> b ''title'' = Str ''B''
          \<longrightarrow> rows out = [a] \<and> len out = 1 \<and> column ''title'' out = [Str ''A''])"
proof (intro conjI impI)
  assume h: "\<not> empty (existing_processed ctx) \<and> wf (existing_processed ctx) \<and>
          distinct (map (\<lambda>r. r ''url'') (rows (existing_processed ctx))) \<and>
          r1 \<in> set (rows (existing_processed ctx)) \<and> r2 \<in> set (rows raw) \<and>
          r1 ''url'' = r2 ''url''"
  let ?E = "existing_processed ctx"
  from h have "rows raw \<noteq> []" by auto
  with assms(2) have ne: "\<not> empty raw" by (auto simp: empty_def)
  have "rows out = keep_first (\<lambda>r. r ''url'') {} (rows ?E @ map (restrict (columns raw)) (rows raw))"
    using processed_news_rows [OF assms(1) ne] h by (simp add: concat_frames_def restrict_wf)
  then have "filter (\<lambda>r. r ''url'' = r1 ''url'') (rows out) =
             take 1 (filter (\<lambda>r. r ''url'' = r1 ''url'') (rows ?E) @
                     filter (\<lambda>r. r ''url'' = r1 ''url'') (map (restrict (columns raw)) (rows raw)))"
    by (simp add: keep_first_take1)
  moreover have "filter (\<lambda>r. r ''url'' = r1 ''url'') (rows ?E) = [r1]"
    using h by (intro filter_key_distinct) auto
  ultimately show "filter (\<lambda>r. r ''url'' = r2 ''url'') (rows out) = [r1]"
    using h by simp
next
  assume h: "empty (existing_processed ctx) \<and> rows raw = [a, b] \<and> a ''url'' = b ''url'' \<and>
          a ''title'' = Str ''A'' \<and> b ''title'' = Str ''B''"
  with assms(2) have ne: "\<not> empty raw" by (auto simp: empty_def)
  have r: "rows out = [a]"
    using processed_news_rows [OF assms(1) ne] h by simp
  then show "rows out = [a]" .
  from r show "len out = 1" by (simp add: len_def)
  from r h show "column ''title'' out = [Str ''A'']" by (simp add: column_def)
qed

theorem first_occurrence_of_url_wins_witness:
  "(\<exists>out. fst (processed_news ctx_old frame_new) = Inr out \<and>
          filter (\<lambda>r. r ''url'' = row_new ''url'') (rows out) = [row_old]) \<and>
   (\<exists>out. fst (processed_news ctx_first_run frame_AB) = Inr out \<and>
          rows out = [row_A] \<and> len out = 1 \<and> column ''title'' out = [Str ''A''])"
proof (intro conjI)
  let ?ctx = "ctx_old"
  have E: "existing_processed ?ctx = frame_old"
    by (simp add: existing_processed_def load_existing_def ctx_with_def ctx_old_def
        ctx_first_run_def no_tables_def Let_def)
  obtain out where out: "fst (processed_news ?ctx frame_new) = Inr out"
    using E by (simp add: processed_news_result existing_processed_def drop_duplicates_def
        empty_def frame_new_def frame_old_def concat_frames_def date_range_def)
  have "filter (\<lambda>r. r ''url'' = row_new ''url'') (rows out) = [row_old]"
    using first_occurrence_of_url_wins [OF out, of row_old row_new] E wf_frame_old
    by (simp add: frame_new_def frame_old_def empty_def row_old_def row_new_def mk_row_def)
  with out show "\<exists>out. fst (processed_news ?ctx frame_new) = Inr out \<and>
          filter (\<lambda>r. r ''url'' = row_new ''url'') (rows out) = [row_old]" by blast
next
  let ?ctx = "ctx_first_run"
  have E: "existing_processed ?ctx = DataFrame"
    by (simp add: existing_processed_def load_existing_def ctx_with_def ctx_old_def
        ctx_first_run_def no_tables_def Let_def)
  obtain out where out: "fst (processed_news ?ctx frame_AB) = Inr out"
    using E by (simp add: processed_news_result existing_processed_def drop_duplicates_def
        empty_def frame_AB_def DataFrame_def date_range_def)
  have "rows out = [row_A] \<and> len out = 1 \<and> column ''title'' out = [Str ''A'']"
    using first_occurrence_of_url_wins [OF out, of _ _ row_A row_B] E
    by (simp add: frame_AB_def empty_def DataFrame_def row_A_def row_B_def mk_row_def)
  with out show "\<exists>out. fst (processed_news ?ctx frame_AB) = Inr out \<and>
          rows out = [row_A] \<and> len out = 1 \<and> column ''title'' out = [Str ''A'']" by blast
qed

text \<open>C7\<close>
theorem empty_batch_short_circuit:
  assumes "empty raw"
  shows "fst (processed_news ctx raw) = Inr raw \<and>
         db (snd (processed_news ctx raw)) = db ctx \<and>
         queries (snd (processed_news ctx raw)) = queries ctx \<and>
         output_metadata (snd (processed_news ctx raw)) = output_metadata ctx"
  using assms by (simp add: processed_news_def Let_def log_info_def)

theorem empty_batch_short_circuit_witness:
  "empty frame_empty_batch \<and>
   fst (processed_news ctx_old frame_empty_batch)
     = Inr frame_empty_batch \<and>
   queries (snd (processed_news ctx_old frame_empty_batch)) = []"
proof -
  have e: "empty frame_empty_batch" by (simp add: empty_def frame_empty_batch_def)
  from empty_batch_short_circuit [OF e, of ctx_old] e
  show ?thesis by (simp add: ctx_with_def ctx_old_def)
qed


text \<open>C8\<close>
theorem deduplication_idempotent:
  assumes "wf df" and "distinct (map (\<lambda>r. r ''url'') (rows df))"
    and "db ctx = Database tables" and "tables ''processed_news'' = Some df"
  shows "(\<forall>out. fst (processed_news ctx df) = Inr out \<longrightarrow> out = df \<and> len out = len df) \<and>
         (''url'' \<in> set (columns df) \<and> comparable (column ''publishedAt'' df)
            \<longrightarrow> fst (processed_news ctx df) = Inr df)"
proof -
  have E: "existing_processed ctx = df"
    using assms(3,4) by (rule existing_processed_Database)
  have same: "df\<lparr>rows := keep_first (\<lambda>r. r ''url'') {} (rows df @ rows df)\<rparr> = df"
    using assms(2) by (simp add: keep_first_self)
  have a: "out = df" if "fst (processed_news ctx df) = Inr out" for out
  proof (cases "empty df")
    case True
    with that show ?thesis by (simp add: processed_news_result)
  next
    case False
    from processed_news_Inr [OF that False] E False
    have "out = (concat_frames df df)\<lparr>rows := keep_first (\<lambda>r. r ''url'') {} (rows (concat_frames df df))\<rparr>"
      by (simp add: existing_processed_def Let_def)
    with assms(1,2) show ?thesis
      by (simp add: concat_frames_self keep_first_self)
  qed
  have b: "fst (processed_news ctx df) = Inr df"
    if "''url'' \<in> set (columns df) \<and> comparable (column ''publishedAt'' df)"
  proof (cases "empty df")
    case True
    then show ?thesis by (simp add: processed_news_result)
  next
    case False
    have d1: "drop_duplicates ''url'' df = Inr df"
      using that False assms(2) by (simp add: drop_duplicates_def keep_first_id)
    have ne: "\<not> empty (concat_frames df df)" using False by (rule empty_concat_frames)
    have d2: "drop_duplicates ''url'' (concat_frames df df) = Inr df"
      using that ne assms(1,2)
      by (simp add: drop_duplicates_def) (simp add: concat_frames_self keep_first_self)
    have "\<exists>d. date_range df = Inr d" using that by (simp add: date_range_def)
    with d1 d2 False E show ?thesis
      by (auto simp: processed_news_result existing_processed_def)
  qed
  from a b show ?thesis by blast
qed

theorem deduplication_idempotent_witness:
  "wf frame_two \<and> distinct (map (\<lambda>r. r ''url'') (rows frame_two)) \<and>
   fst (processed_news ctx_two frame_two) = Inr frame_two \<and> len frame_two = 2"
proof -
  have d: "distinct (map (\<lambda>r. r ''url'') (rows frame_two))"
    by (simp add: frame_two_def row_old_def row_A_def mk_row_def)
  have db: "db ctx_two = Database (no_tables(''processed_news'' \<mapsto> frame_two))"
    by (simp add: ctx_two_def ctx_with_def)
  have tb: "(no_tables(''processed_news'' \<mapsto> frame_two)) ''processed_news'' = Some frame_two"
    by simp
  have c: "''url'' \<in> set (columns frame_two) \<and> comparable (column ''publishedAt'' frame_two)"
    by (simp add: frame_two_def comparable_def column_def row_old_def row_A_def mk_row_def)
  from deduplication_idempotent [OF wf_frame_two d db tb] c
  have "fst (processed_news ctx_two frame_two) = Inr frame_two" by blast
  moreover have "len frame_two = 2" by (simp add: len_def frame_two_def)
  ultimately show ?thesis using wf_frame_two d by simp
qed

text \<open>C9\<close>
theorem null_urls_collapse_counterexample:
  "rows frame_null_urls = [row_null_1, row_null_2] \<and>
   row_null_1 ''url'' = Null \<and> row_null_2 ''url'' = Null \<and>
   fst (processed_news ctx_first_run frame_null_urls) = Inr (frame_null_urls\<lparr>rows := [row_null_1]\<rparr>)"
  by (simp add: processed_news_result existing_processed_def [symmetric])
     (simp add: existing_processed_def load_existing_def ctx_first_run_def ctx_with_def no_tables_def
        Let_def DataFrame_def empty_def frame_null_urls_def drop_duplicates_def date_range_def
        row_null_1_def row_null_2_def mk_row_def)

theorem null_url_is_one_key:
  assumes "fst (processed_news ctx raw) = Inr out" and "\<not> empty raw"
  shows "filter (\<lambda>r. r ''url'' = Null) (rows out) =
           take 1 (filter (\<lambda>r. r ''url'' = Null)
                     (rows (if empty (existing_processed ctx) then raw
                            else concat_frames (existing_processed ctx) raw))) \<and>
         length (filter (\<lambda>r. r ''url'' = Null) (rows out)) \<le> 1"
proof -
  have "filter (\<lambda>r. r ''url'' = Null) (rows out) =
           take 1 (filter (\<lambda>r. r ''url'' = Null)
                     (rows (if empty (existing_processed ctx) then raw
                            else concat_frames (existing_processed ctx) raw)))"
    unfolding processed_news_rows [OF assms] by (simp add: keep_first_take1)
  then show ?thesis by simp
qed

theorem null_url_is_one_key_witness:
  "\<not> empty frame_null_urls \<and>
   fst (processed_news ctx_first_run frame_null_urls) = Inr (frame_null_urls\<lparr>rows := [row_null_1]\<rparr>) \<and>
   filter (\<lambda>r. r ''url'' = Null) (rows (frame_null_urls\<lparr>rows := [row_null_1]\<rparr>)) = [row_null_1]"
proof -
  have ne: "\<not> empty frame_null_urls" by (simp add: empty_def frame_null_urls_def)
  have E: "existing_processed ctx_first_run = DataFrame"
    by (simp add: existing_processed_def load_existing_def ctx_first_run_def ctx_with_def
        no_tables_def Let_def)
  have res: "fst (processed_news ctx_first_run frame_null_urls) = Inr (frame_null_urls\<lparr>rows := [row_null_1]\<rparr>)"
    using E by (simp add: processed_news_result existing_processed_def
        DataFrame_def empty_def frame_null_urls_def drop_duplicates_def date_range_def
        row_null_1_def row_null_2_def mk_row_def)
  from null_url_is_one_key [OF res ne] E
  have "filter (\<lambda>r. r ''url'' = Null) (rows (frame_null_urls\<lparr>rows := [row_null_1]\<rparr>)) = [row_null_1]"
    by (simp add: DataFrame_def empty_def frame_null_urls_def row_null_1_def row_null_2_def mk_row_def)
  with ne res show ?thesis by simp
qed

text \<open>C5\<close>
theorem filter_output_sorted_newest_first:
  assumes "fst (filtered_news P ctx df) = Inr out"
    and "getitem ''publishedAt'' out = Inr dates"
  shows "non_increasing dates"
proof (cases "empty df")
  case True
  with assms(1) have "out = df" by (simp add: filtered_news_result)
  with True getitem_Inr [OF assms(2)] have "dates = []"
    by (auto simp: empty_def column_def)
  then show ?thesis by (simp add: non_increasing_def)
next
  case False
  from filtered_news_Inr [OF assms(1) False] obtain merged
    where s: "(if ''publishedAt'' \<in> set (columns merged)
          then sort_values ''publishedAt'' merged else Inr merged) = Inr out" by blast
  from getitem_Inr [OF assms(2)] have c: "''publishedAt'' \<in> set (columns out)"
    and d: "dates = column ''publishedAt'' out" by simp_all
  have "''publishedAt'' \<in> set (columns merged)"
  proof (rule ccontr)
    assume "\<not> ?thesis"
    with s c show False by simp
  qed
  with s have "sort_values ''publishedAt'' merged = Inr out" by simp
  then show ?thesis unfolding d by (rule sort_values_non_increasing)
qed

text \<open>C6\<close>
theorem filter_row_count_monotone:
  assumes "fst (filtered_news P ctx df) = Inr out" and "\<not> empty df"
    and "wf (existing_filtered ctx)"
    and "distinct (map (\<lambda>r. r ''url'') (rows (existing_filtered ctx)))"
    and "rows (existing_filtered ctx) \<noteq> [] \<longrightarrow> columns (existing_filtered ctx) \<noteq> []"
  shows "len (existing_filtered ctx) \<le> len out"
proof (cases "empty (existing_filtered ctx)")
  case True
  with assms(5) have "rows (existing_filtered ctx) = []" by (auto simp: empty_def)
  then show ?thesis by (simp add: len_def)
next
  case False
  let ?E = "existing_filtered ctx"
  have "keep_first (\<lambda>r. r ''url'') {} (rows (concat_frames ?E (filter_batch P df))) =
        rows ?E @ keep_first (\<lambda>r. r ''url'') ((\<lambda>r. r ''url'') ` set (rows ?E))
                    (map (restrict (columns (filter_batch P df))) (rows (filter_batch P df)))"
    using assms(3,4) by (simp add: concat_frames_def restrict_wf keep_first_append keep_first_id)
  with filtered_news_len [OF assms(1,2) False] show ?thesis by (simp add: len_def)
qed

theorem filter_output_sorted_newest_first_witness:
  "\<exists>out. fst (filtered_news example_parser ctx_first_run frame_dates) = Inr out \<and>
         getitem ''publishedAt'' out = Inr [Ts 1734220800000000000, Ts 300, Ts 100] \<and>
         non_increasing [Ts 1734220800000000000, Ts 300, Ts 100]"
proof -
  from run_dates_first obtain out
    where 1: "fst (filtered_news example_parser ctx_first_run frame_dates) = Inr out"
      and 2: "getitem ''publishedAt'' out = Inr [Ts 1734220800000000000, Ts 300, Ts 100]"
    by blast
  from filter_output_sorted_newest_first [OF 1 2] 1 2 show ?thesis by blast
qed

theorem filter_row_count_monotone_witness:
  "\<exists>out. fst (filtered_news example_parser ctx_kept frame_one) = Inr out \<and>
         len (existing_filtered ctx_kept) = 1 \<and> len out = 2 \<and>
         len (existing_filtered ctx_kept) \<le> len out"
proof -
  from run_one_kept obtain out
    where 1: "fst (filtered_news example_parser ctx_kept frame_one) = Inr out"
      and 2: "len out = 2" by blast
  have ne: "\<not> empty frame_one" by (simp add: empty_def frame_one_def)
  have w: "wf (existing_filtered ctx_kept)" by (simp add: existing_kept wf_frame_kept)
  have d: "distinct (map (\<lambda>r. r ''url'') (rows (existing_filtered ctx_kept)))"
    by (simp add: existing_kept frame_kept_def)
  have c: "rows (existing_filtered ctx_kept) \<noteq> [] \<longrightarrow> columns (existing_filtered ctx_kept) \<noteq> []"
    by (simp add: existing_kept frame_kept_def)
  have l: "len (existing_filtered ctx_kept) = 1"
    by (simp add: existing_kept frame_kept_def len_def)
  from filter_row_count_monotone [OF 1 ne w d c] 1 2 l show ?thesis by blast
qed

text \<open>C2\<close>

theorem filter_output_valid_counterexample:
  "fst (filtered_news example_parser ctx_first_run frame_no_content) = Inr frame_no_content \<and>
   rows frame_no_content = [row_plain] \<and>
   content_field frame_no_content = ''description'' \<and>
   row_plain ''body'' = Null \<and> row_plain ''description'' = Null"
  by (simp add: filtered_news_result existing_first_run)
     (simp add: getitem_def DataFrame_def empty_def frame_no_content_def filter_batch_def
        Let_def to_datetime_coerce_def filter_conditions_def content_field_def column_def
        notna_def row_plain_def mk_row_def sort_values_def comparable_def sort_desc_def
        date_range_def fun_upd_idem_iff)

theorem filter_output_valid:
  assumes "fst (filtered_news P ctx df) = Inr out"
    and "content_field df \<in> set (columns df)" and "''publishedAt'' \<in> set (columns df)"
    and "wf (existing_filtered ctx)"
    and "\<forall>e \<in> set (rows (existing_filtered ctx)). valid_row (content_field df) e"
  shows "\<forall>r \<in> set (rows out). valid_row (content_field df) r"
proof (cases "empty df")
  case True
  with assms(1) have "out = df" by (simp add: filtered_news_result)
  moreover from True assms(2) have "rows df = []" by (auto simp: empty_def)
  ultimately show ?thesis by simp
next
  case False
  let ?E = "existing_filtered ctx" and ?F = "filter_batch P df"
  from filtered_news_Inr [OF assms(1) False] obtain merged
    where t: "''title'' \<in> set (columns df)"
      and m: "(if \<not> empty ?E then drop_duplicates ''url'' (concat_frames ?E ?F) else Inr ?F) = Inr merged"
      and s: "(if ''publishedAt'' \<in> set (columns merged)
               then sort_values ''publishedAt'' merged else Inr merged) = Inr out" by blast
  have so: "set (rows out) = set (rows merged)"
    using s by (auto simp: sort_values_set split: if_splits)
  have F: "\<forall>r \<in> set (rows ?F). valid_row (content_field df) r"
    using filter_batch_valid [OF assms(2,3)] by blast
  have "\<forall>r \<in> set (rows merged). valid_row (content_field df) r"
  proof (cases "empty ?E")
    case True
    with m F show ?thesis by simp
  next
    case False
    with m have dd: "drop_duplicates ''url'' (concat_frames ?E ?F) = Inr merged" by simp
    have "\<not> empty (concat_frames ?E ?F)" using False by (rule empty_concat_frames)
    from drop_duplicates_Inr [OF dd this]
    have "set (rows merged) \<subseteq> set (rows (concat_frames ?E ?F))"
      using keep_first_subset [of "\<lambda>r. r ''url''" "{}" "rows (concat_frames ?E ?F)"] by simp
    also have "\<dots> = set (rows ?E) \<union> restrict (columns df) ` set (rows ?F)"
      using assms(4) by (simp add: concat_frames_def restrict_wf filter_batch_columns)
    finally have sub: "set (rows merged) \<subseteq> set (rows ?E) \<union> restrict (columns df) ` set (rows ?F)" .
    show ?thesis
    proof
      fix r assume "r \<in> set (rows merged)"
      with sub consider "r \<in> set (rows ?E)"
        | f where "f \<in> set (rows ?F)" "r = restrict (columns df) f" by blast
      then show "valid_row (content_field df) r"
      proof cases
        case 1
        with assms(5) show ?thesis by blast
      next
        case 2
        with F have "valid_row (content_field df) f" by blast
        then show ?thesis unfolding 2(2) using t assms(2,3) by (rule valid_row_restrict)
      qed
    qed
  qed
  with so show ?thesis by simp
qed

theorem filter_output_valid_witness:
  "\<exists>out. fst (filtered_news example_parser ctx_kept frame_one) = Inr out \<and> len out = 2 \<and>
         list_all (valid_row ''body'') (rows out)"
proof -
  from run_one_kept obtain out
    where 1: "fst (filtered_news example_parser ctx_kept frame_one) = Inr out"
      and 2: "len out = 2" by blast
  have cf: "content_field frame_one = ''body''" by (simp add: content_field_def frame_one_def)
  have c: "content_field frame_one \<in> set (columns frame_one)"
    and p: "''publishedAt'' \<in> set (columns frame_one)"
    by (simp_all add: content_field_def frame_one_def)
  have w: "wf (existing_filtered ctx_kept)" by (simp add: existing_kept wf_frame_kept)
  have v: "\<forall>e \<in> set (rows (existing_filtered ctx_kept)). valid_row (content_field frame_one) e"
    by (simp add: existing_kept cf)
       (simp add: frame_kept_def valid_row_def row_kept_def mk_row_def notna_def strip_def is_space_def)
  from filter_output_valid [OF 1 c p w v] have "list_all (valid_row ''body'') (rows out)"
    by (simp add: cf list_all_iff)
  with 1 2 show ?thesis by blast
qed

text \<open>C10\<close>

theorem no_content_column_only_title_checked:
  assumes "fst (filtered_news P ctx df) = Inr out" and "\<not> empty df"
    and "''body'' \<notin> set (columns df)" and "''description'' \<notin> set (columns df)"
  shows "(\<forall>r. filter_conditions df r \<longleftrightarrow> notna (r ''title'')) \<and>
         (\<forall>r \<in> set (rows df).
            notna (r ''title'') \<and>
            (''publishedAt'' \<in> set (columns df) \<longrightarrow> is_ts (r ''publishedAt'')) \<and>
            (empty (existing_filtered ctx) \<or>
             wf df \<and> distinct (map (\<lambda>r. r ''url'') (rows df)) \<and>
             (\<forall>e \<in> set (rows (existing_filtered ctx)).
                restrict (columns (existing_filtered ctx)) e ''url'' \<noteq> r ''url''))
            \<longrightarrow> r \<in> set (rows out))"
proof (intro conjI allI ballI impI)
  fix r
  show "filter_conditions df r \<longleftrightarrow> notna (r ''title'')"
    using assms(3,4) by (rule filter_conditions_no_content)
next
  fix r
  assume r: "r \<in> set (rows df)"
    and h: "notna (r ''title'') \<and>
            (''publishedAt'' \<in> set (columns df) \<longrightarrow> is_ts (r ''publishedAt'')) \<and>
            (empty (existing_filtered ctx) \<or>
             wf df \<and> distinct (map (\<lambda>r. r ''url'') (rows df)) \<and>
             (\<forall>e \<in> set (rows (existing_filtered ctx)).
                restrict (columns (existing_filtered ctx)) e ''url'' \<noteq> r ''url''))"
  let ?E = "existing_filtered ctx" and ?F = "filter_batch P df"
  from h have "filter_conditions df r"
    using assms(3,4) by (simp add: filter_conditions_no_content)
  with r h have rF: "r \<in> set (rows ?F)" by (intro filter_batch_keeps) simp_all
  from filtered_news_Inr [OF assms(1,2)] obtain merged
    where m: "(if \<not> empty ?E then drop_duplicates ''url'' (concat_frames ?E ?F) else Inr ?F) = Inr merged"
      and s: "(if ''publishedAt'' \<in> set (columns merged)
               then sort_values ''publishedAt'' merged else Inr merged) = Inr out" by blast
  have so: "set (rows out) = set (rows merged)"
    using s by (auto simp: sort_values_set split: if_splits)
  have "r \<in> set (rows merged)"
  proof (cases "empty ?E")
    case True
    with m rF show ?thesis by auto
  next
    case False
    with h have w: "wf df" and d: "distinct (map (\<lambda>r. r ''url'') (rows df))"
      and fresh: "\<forall>e \<in> set (rows ?E). restrict (columns ?E) e ''url'' \<noteq> r ''url''" by auto
    from False m have dd: "drop_duplicates ''url'' (concat_frames ?E ?F) = Inr merged" by simp
    have "\<not> empty (concat_frames ?E ?F)" using False by (rule empty_concat_frames)
    from drop_duplicates_Inr [OF dd this]
    have "rows merged = keep_first (\<lambda>r. r ''url'') {} (rows (concat_frames ?E ?F))" by simp
    also have "rows (concat_frames ?E ?F) = map (restrict (columns ?E)) (rows ?E) @ rows ?F"
      using wf_filter_batch [OF w, of P] by (simp add: concat_frames_def restrict_wf)
    finally have rm: "rows merged =
        keep_first (\<lambda>r. r ''url'') {} (map (restrict (columns ?E)) (rows ?E)) @
        keep_first (\<lambda>r. r ''url'') ((\<lambda>r. r ''url'') ` set (map (restrict (columns ?E)) (rows ?E))) (rows ?F)"
      by (simp add: keep_first_append)
    have "r ''url'' \<notin> (\<lambda>r. r ''url'') ` set (map (restrict (columns ?E)) (rows ?E))"
      using fresh by (auto simp: image_iff)
    with rF filter_batch_urls [OF d, of P]
    have "r \<in> set (keep_first (\<lambda>r. r ''url'')
                ((\<lambda>r. r ''url'') ` set (map (restrict (columns ?E)) (rows ?E))) (rows ?F))"
      by (intro keep_first_member)
    then show ?thesis unfolding rm by simp
  qed
  with so show "r \<in> set (rows out)" by simp
qed

theorem no_content_column_only_title_checked_witness:
  "fst (filtered_news example_parser ctx_first_run frame_titles)
     = Inr (frame_titles\<lparr>rows := [row_removed, row_blank]\<rparr>) \<and>
   row_removed ''title'' = Str ''[Removed]'' \<and> str_strip (row_blank ''title'') = Str '''' \<and>
   filter_conditions frame_titles row_removed \<and> filter_conditions frame_titles row_blank \<and>
   row_removed \<in> set (rows (frame_titles\<lparr>rows := [row_removed, row_blank]\<rparr>)) \<and>
   row_blank \<in> set (rows (frame_titles\<lparr>rows := [row_removed, row_blank]\<rparr>))"
proof -
  note res = run_titles_first
  have ne: "\<not> empty frame_titles" by (simp add: empty_def frame_titles_def)
  have nb: "''body'' \<notin> set (columns frame_titles)"
    and nd: "''description'' \<notin> set (columns frame_titles)"
    by (simp_all add: frame_titles_def)
  have E: "empty (existing_filtered ctx_first_run)"
    by (simp add: existing_first_run DataFrame_def empty_def)
  have t: "row_removed ''title'' = Str ''[Removed]''" "str_strip (row_blank ''title'') = Str ''''"
    "notna (row_removed ''title'')" "notna (row_blank ''title'')"
    by (simp_all add: row_removed_def row_blank_def mk_row_def notna_def strip_def is_space_def)
  have mem: "row_removed \<in> set (rows frame_titles)" "row_blank \<in> set (rows frame_titles)"
    by (simp_all add: frame_titles_def)
  have np: "''publishedAt'' \<notin> set (columns frame_titles)" by (simp add: frame_titles_def)
  from no_content_column_only_title_checked [OF res ne nb nd]
  have a: "\<forall>r. filter_conditions frame_titles r \<longleftrightarrow> notna (r ''title'')"
    and b: "\<forall>r \<in> set (rows frame_titles).
            notna (r ''title'') \<and>
            (''publishedAt'' \<in> set (columns frame_titles) \<longrightarrow> is_ts (r ''publishedAt'')) \<and>
            (empty (existing_filtered ctx_first_run) \<or>
             wf frame_titles \<and> distinct (map (\<lambda>r. r ''url'') (rows frame_titles)) \<and>
             (\<forall>e \<in> set (rows (existing_filtered ctx_first_run)).
                restrict (columns (existing_filtered ctx_first_run)) e ''url'' \<noteq> r ''url''))
            \<longrightarrow> r \<in> set (rows (frame_titles\<lparr>rows := [row_removed, row_blank]\<rparr>))"
    by blast+
  from a t have f: "filter_conditions frame_titles row_removed" "filter_conditions frame_titles row_blank"
    by simp_all
  from b mem t E np
  have "row_removed \<in> set (rows (frame_titles\<lparr>rows := [row_removed, row_blank]\<rparr>))"
    and "row_blank \<in> set (rows (frame_titles\<lparr>rows := [row_removed, row_blank]\<rparr>))"
    by blast+
  with res t f show ?thesis by blast
qed

end
